theory Spec2Isabelle
  imports Complex_Main "HOL-Library.Multiset" "HOL-Library.AList"
begin


section \<open>JavaScript values and the effects of the tool server (src/index.ts)\<close>

text \<open>
  The tool handlers receive untyped JSON (\<open>args\<close> is a \<open>Record<string, unknown>\<close> and
  every \<open>as string\<close> is a compile-time assertion only), so values are modelled as JavaScript
  values. An object is an association list in which the first binding of a key is the one
  that is read.
\<close>

datatype jsval =
    Undefined
  | Null
  | Bool bool
  | Num real
  | Str string
  | Arr "jsval list"
  | Obj "(string \<times> jsval) list"

text \<open>What a \<open>throw\<close> carries: an \<open>Error\<close> object with its message, or any other value.\<close>

datatype thrown = Error string | NonError

text \<open>
  Property access \<open>v.k\<close> and \<open>v[0]\<close>. Reading a property of \<open>undefined\<close> or \<open>null\<close> throws a
  \<open>TypeError\<close>; a missing property reads as \<open>undefined\<close>. The program only reads identifier
  keys, \<open>length\<close> and the index \<open>0\<close>, which is the key \<open>''0''\<close> here.
\<close>

definition type_error :: "string \<Rightarrow> string \<Rightarrow> thrown" where
  "type_error what k =
     Error (''Cannot read properties of '' @ what @ '' (reading '' @ [CHR 0x27] @ k @ [CHR 0x27] @ '')'')"

fun member :: "jsval \<Rightarrow> string \<Rightarrow> thrown + jsval" where
  "member Undefined k = Inl (type_error ''undefined'' k)"
| "member Null k = Inl (type_error ''null'' k)"
| "member (Bool b) k = Inr Undefined"
| "member (Num x) k = Inr Undefined"
| "member (Str s) k =
     (if k = ''length'' then Inr (Num (real (length s)))
      else if k = ''0'' then Inr (case s of [] \<Rightarrow> Undefined | c # _ \<Rightarrow> Str [c])
      else Inr Undefined)"
| "member (Arr xs) k =
     (if k = ''length'' then Inr (Num (real (length xs)))
      else if k = ''0'' then Inr (case xs of [] \<Rightarrow> Undefined | x # _ \<Rightarrow> x)
      else Inr Undefined)"
| "member (Obj kvs) k = Inr (case map_of kvs k of None \<Rightarrow> Undefined | Some v \<Rightarrow> v)"

text \<open>Truthiness, and \<open>a || b\<close>.\<close>

fun truthy :: "jsval \<Rightarrow> bool" where
  "truthy Undefined = False"
| "truthy Null = False"
| "truthy (Bool b) = b"
| "truthy (Num x) = (x \<noteq> 0)"
| "truthy (Str s) = (s \<noteq> [])"
| "truthy (Arr xs) = True"
| "truthy (Obj kvs) = True"

definition js_or :: "jsval \<Rightarrow> jsval \<Rightarrow> jsval" where
  "js_or a b = (if truthy a then a else b)"

text \<open>The values a \<open>for (const x of v)\<close> loop visits; a value that is not iterable throws.\<close>

fun iterate :: "jsval \<Rightarrow> thrown + jsval list" where
  "iterate (Arr xs) = Inr xs"
| "iterate (Str s) = Inr (map (\<lambda>c. Str [c]) s)"
| "iterate v = Inl (Error ''texts is not iterable'')"

subsection \<open>HTTP requests and the world\<close>

datatype http_method = GET | POST | DELETE

record http_request =
  meth :: http_method
  url :: string
  body :: jsval
  timeout_ms :: "nat option"

text \<open>
  The world is the sequence of HTTP requests issued so far, oldest first. The external
  service answers a request with the response data or makes \<open>axios\<close> throw; its answer may
  depend on everything issued before.
\<close>

type_synonym world = "http_request list"

record env =
  OLLAMA_HOST :: string
  service :: "http_request \<Rightarrow> world \<Rightarrow> thrown + jsval"

type_synonym 'a io = "world \<Rightarrow> (thrown + 'a) \<times> world"

definition ret :: "'a \<Rightarrow> 'a io" where
  "ret x w = (Inr x, w)"

definition throw :: "thrown \<Rightarrow> 'a io" where
  "throw e w = (Inl e, w)"

definition lift :: "thrown + 'a \<Rightarrow> 'a io" where
  "lift r w = (r, w)"

definition bind :: "'a io \<Rightarrow> ('a \<Rightarrow> 'b io) \<Rightarrow> 'b io" where
  "bind m f w = (case m w of (Inl e, w') \<Rightarrow> (Inl e, w') | (Inr x, w') \<Rightarrow> f x w')"

definition axios :: "env \<Rightarrow> http_request \<Rightarrow> jsval io" where
  "axios E r w = (service E r w, w @ [r])"

subsection \<open>Tool results\<close>

text \<open>
  The single text item of a result's content is a plain string, a template literal ending in an interpolated
  value, or \<open>JSON.stringify(v, null, 2)\<close> of a value \<open>v\<close>.
\<close>

datatype text_payload =
    Plain string
  | Template string jsval
  | Stringified jsval

record tool_result =
  content :: text_payload
  isError :: bool

definition ok_result :: "text_payload \<Rightarrow> tool_result" where
  "ok_result p = \<lparr>content = p, isError = False\<rparr>"

record tool_request =
  name :: string
  arguments :: jsval

subsection \<open>The handlers\<close>

definition embed_request :: "env \<Rightarrow> jsval \<Rightarrow> jsval \<Rightarrow> http_request" where
  "embed_request E model txt =
     \<lparr>meth = POST, url = OLLAMA_HOST E @ ''/api/embed'',
      body = Obj [(''model'', model), (''input'', txt)], timeout_ms = Some 30000\<rparr>"

text \<open>\<open>response.data.embeddings[0]\<close>\<close>

definition first_embedding :: "jsval \<Rightarrow> thrown + jsval" where
  "first_embedding data =
     (case member data ''embeddings'' of Inl e \<Rightarrow> Inl e | Inr es \<Rightarrow> member es ''0'')"

definition list_models :: "env \<Rightarrow> jsval \<Rightarrow> tool_result io" where
  "list_models E args =
     bind (axios E \<lparr>meth = GET, url = OLLAMA_HOST E @ ''/api/tags'', body = Undefined, timeout_ms = None\<rparr>)
       (\<lambda>data. ret (ok_result (Stringified data)))"

definition get_model_info :: "env \<Rightarrow> jsval \<Rightarrow> tool_result io" where
  "get_model_info E args =
     bind (lift (member args ''model'')) (\<lambda>model.
     bind (axios E \<lparr>meth = POST, url = OLLAMA_HOST E @ ''/api/show'',
                     body = Obj [(''name'', model)], timeout_ms = Some 10000\<rparr>)
       (\<lambda>data. ret (ok_result (Stringified data))))"

definition generate_embedding :: "env \<Rightarrow> jsval \<Rightarrow> tool_result io" where
  "generate_embedding E args =
     bind (lift (member args ''model'')) (\<lambda>model.
     bind (lift (member args ''text'')) (\<lambda>txt.
     bind (axios E (embed_request E model txt)) (\<lambda>data.
     bind (lift (first_embedding data)) (\<lambda>e.
     bind (lift (member e ''length'')) (\<lambda>n.
       ret (ok_result (Stringified
         (Obj [(''model'', model), (''embedding'', e), (''dimension'', n)]))))))))"

definition completion_request ::
  "env \<Rightarrow> jsval \<Rightarrow> jsval \<Rightarrow> jsval \<Rightarrow> jsval \<Rightarrow> jsval \<Rightarrow> http_request" where
  "completion_request E model prompt temperature topK topP =
     \<lparr>meth = POST, url = OLLAMA_HOST E @ ''/api/generate'',
      body = Obj [(''model'', model), (''prompt'', prompt), (''stream'', Bool False),
                  (''options'', Obj [(''temperature'', temperature), (''top_k'', topK),
                                     (''top_p'', topP)])],
      timeout_ms = Some 60000\<rparr>"

text \<open>The fields of the generation response that the result repeats, in the source's order.\<close>

definition completion_fields :: "string list" where
  "completion_fields =
     [''response'', ''context'', ''total_duration'', ''load_duration'', ''prompt_eval_count'',
      ''prompt_eval_duration'', ''eval_count'', ''eval_duration'']"

fun read_fields :: "jsval \<Rightarrow> string list \<Rightarrow> thrown + (string \<times> jsval) list" where
  "read_fields data [] = Inr []"
| "read_fields data (k # ks) =
     (case member data k of
        Inl e \<Rightarrow> Inl e
      | Inr v \<Rightarrow> (case read_fields data ks of Inl e \<Rightarrow> Inl e | Inr kvs \<Rightarrow> Inr ((k, v) # kvs)))"

definition generate_completion :: "env \<Rightarrow> jsval \<Rightarrow> tool_result io" where
  "generate_completion E args =
     bind (lift (member args ''model'')) (\<lambda>model.
     bind (lift (member args ''prompt'')) (\<lambda>prompt.
     bind (lift (member args ''temperature'')) (\<lambda>t.
     bind (lift (member args ''top_k'')) (\<lambda>k.
     bind (lift (member args ''top_p'')) (\<lambda>p.
     bind (axios E (completion_request E model prompt
                      (js_or t (Num 0.7)) (js_or k (Num 40)) (js_or p (Num 0.9)))) (\<lambda>data.
     bind (lift (read_fields data completion_fields)) (\<lambda>kvs.
       ret (ok_result (Stringified
         (Obj ((''model'', model) # (''prompt'', prompt) # kvs)))))))))))"

text \<open>The loop of \<open>batch_embeddings\<close>: one request per text, in order, each awaited.\<close>

fun embed_each :: "env \<Rightarrow> jsval \<Rightarrow> jsval list \<Rightarrow> jsval list \<Rightarrow> jsval list io" where
  "embed_each E model [] embeddings = ret embeddings"
| "embed_each E model (txt # texts) embeddings =
     bind (axios E (embed_request E model txt)) (\<lambda>data.
     bind (lift (first_embedding data)) (\<lambda>e.
       embed_each E model texts (embeddings @ [Obj [(''text'', txt), (''embedding'', e)]])))"

definition batch_embeddings :: "env \<Rightarrow> jsval \<Rightarrow> tool_result io" where
  "batch_embeddings E args =
     bind (lift (member args ''model'')) (\<lambda>model.
     bind (lift (member args ''texts'')) (\<lambda>texts.
     bind (lift (iterate texts)) (\<lambda>ts.
     bind (embed_each E model ts []) (\<lambda>embeddings.
       ret (ok_result (Stringified
         (Obj [(''model'', model), (''count'', Num (real (length embeddings))),
               (''embeddings'', Arr embeddings)])))))))"

definition pull_model :: "env \<Rightarrow> jsval \<Rightarrow> tool_result io" where
  "pull_model E args =
     bind (lift (member args ''model'')) (\<lambda>model.
     bind (axios E \<lparr>meth = POST, url = OLLAMA_HOST E @ ''/api/pull'',
                     body = Obj [(''name'', model)], timeout_ms = Some 600000\<rparr>)
       (\<lambda>data. ret (ok_result (Template ''Successfully pulled model: '' model))))"

definition delete_model :: "env \<Rightarrow> jsval \<Rightarrow> tool_result io" where
  "delete_model E args =
     bind (lift (member args ''model'')) (\<lambda>model.
     bind (axios E \<lparr>meth = DELETE, url = OLLAMA_HOST E @ ''/api/delete'',
                     body = Obj [(''name'', model)], timeout_ms = None\<rparr>)
       (\<lambda>data. ret (ok_result (Template ''Successfully deleted model: '' model))))"

text \<open>\<open>response.data.models?.length || 0\<close>\<close>

definition models_count :: "jsval \<Rightarrow> thrown + jsval" where
  "models_count data =
     (case member data ''models'' of
        Inl e \<Rightarrow> Inl e
      | Inr ms \<Rightarrow>
          (case (if ms = Undefined \<or> ms = Null then Inr Undefined else member ms ''length'') of
             Inl e \<Rightarrow> Inl e
           | Inr n \<Rightarrow> Inr (js_or n (Num 0))))"

text \<open>The health check has its own \<open>try\<close>/\<open>catch\<close>: whatever is thrown inside reports unhealthy.\<close>

definition check_ollama_health :: "env \<Rightarrow> jsval \<Rightarrow> tool_result io" where
  "check_ollama_health E args w =
     (case bind (axios E \<lparr>meth = GET, url = OLLAMA_HOST E @ ''/api/tags'', body = Undefined,
                           timeout_ms = Some 5000\<rparr>)
             (\<lambda>data. bind (lift (models_count data)) (\<lambda>n.
                ret (ok_result (Stringified
                  (Obj [(''status'', Str ''healthy''), (''host'', Str (OLLAMA_HOST E)),
                        (''models_count'', n)]))))) w of
        (Inr r, w') \<Rightarrow> (Inr r, w')
      | (Inl e, w') \<Rightarrow>
          (Inr (ok_result (Stringified
             (Obj [(''status'', Str ''unhealthy''), (''host'', Str (OLLAMA_HOST E)),
                   (''error'', Str (''Cannot connect to Ollama at '' @ OLLAMA_HOST E))]))), w'))"

subsection \<open>The dispatcher\<close>

text \<open>The names of the published tools, in the order of the \<open>tools\<close> array.\<close>

definition tools :: "string list" where
  "tools = [''list_models'', ''get_model_info'', ''generate_embedding'', ''generate_completion'',
            ''batch_embeddings'', ''pull_model'', ''delete_model'', ''check_ollama_health'']"

text \<open>The body of the \<open>try\<close> block: the \<open>switch\<close> over the tool name.\<close>

definition run_tool :: "env \<Rightarrow> tool_request \<Rightarrow> tool_result io" where
  "run_tool E req =
     (let toolName = name req; args = arguments req in
      if toolName = ''list_models'' then list_models E args
      else if toolName = ''get_model_info'' then get_model_info E args
      else if toolName = ''generate_embedding'' then generate_embedding E args
      else if toolName = ''generate_completion'' then generate_completion E args
      else if toolName = ''batch_embeddings'' then batch_embeddings E args
      else if toolName = ''pull_model'' then pull_model E args
      else if toolName = ''delete_model'' then delete_model E args
      else if toolName = ''check_ollama_health'' then check_ollama_health E args
      else ret \<lparr>content = Plain (''Unknown tool: '' @ toolName), isError = True\<rparr>)"

text \<open>The \<open>catch\<close> block.\<close>

definition error_result :: "thrown \<Rightarrow> tool_result" where
  "error_result e =
     (let errorMessage = (case e of Error m \<Rightarrow> m | NonError \<Rightarrow> ''Unknown error occurred'')
      in \<lparr>content = Plain (''Error executing tool: '' @ errorMessage), isError = True\<rparr>)"

text \<open>The request handler: it always returns a result and the world it leaves.\<close>

definition call_tool :: "env \<Rightarrow> tool_request \<Rightarrow> world \<Rightarrow> tool_result \<times> world" where
  "call_tool E req w =
     (case run_tool E req w of
        (Inr r, w') \<Rightarrow> (r, w')
      | (Inl e, w') \<Rightarrow> (error_result e, w'))"

section \<open>The components given as code in the design documents\<close>

text \<open>
  The documents of the repository give TypeScript and SQL for the components that the tool
  server does not contain yet: the circuit breaker, the embedding cache, the ranking function,
  the chunker, the similarity query and the duplicate check. Each is embedded as written.
  A computation that awaits something takes the time at which it starts and returns its
  outcome with the time at which it finishes; \<open>Date.now()\<close> reads that time.
\<close>

type_synonym 'a timed = "int \<Rightarrow> (thrown + 'a) \<times> int"

subsection \<open>Circuit breaker\<close>

datatype breaker_state = Closed | Open | HalfOpen

record CircuitBreaker =
  state :: breaker_state
  failures :: nat
  lastFailureTime :: int
  failureThreshold :: nat
  timeout :: int

text \<open>The field initialisers of the class.\<close>

definition new_CircuitBreaker :: CircuitBreaker where
  "new_CircuitBreaker =
     \<lparr>state = Closed, failures = 0, lastFailureTime = 0, failureThreshold = 5, timeout = 60000\<rparr>"

definition onSuccess :: "CircuitBreaker \<Rightarrow> CircuitBreaker" where
  "onSuccess cb = cb\<lparr>failures := 0, state := Closed\<rparr>"

definition onFailure :: "CircuitBreaker \<Rightarrow> int \<Rightarrow> CircuitBreaker" where
  "onFailure cb now =
     (let cb1 = cb\<lparr>failures := failures cb + 1, lastFailureTime := now\<rparr>
      in if failures cb1 \<ge> failureThreshold cb1 then cb1\<lparr>state := Open\<rparr> else cb1)"

text \<open>
  \<open>execute\<close> started at time \<open>now\<close>: the outcome, the finishing time and the breaker it leaves.
  When the breaker is open and the timeout has not passed, \<open>fn\<close> is not applied.
\<close>

definition execute ::
  "CircuitBreaker \<Rightarrow> 'a timed \<Rightarrow> int \<Rightarrow> ((thrown + 'a) \<times> int) \<times> CircuitBreaker" where
  "execute cb fn now =
     (if state cb = Open \<and> \<not> (now - lastFailureTime cb > timeout cb)
      then ((Inl (Error ''Circuit breaker is open''), now), cb)
      else
        (let cb1 = (if state cb = Open then cb\<lparr>state := HalfOpen\<rparr> else cb)
         in case fn now of
              (Inr result, t) \<Rightarrow> ((Inr result, t), onSuccess cb1)
            | (Inl error, t) \<Rightarrow> ((Inl error, t), onFailure cb1 t)))"

text \<open>A sequence of calls through one breaker, each started when the one before has finished.\<close>

fun execute_all :: "CircuitBreaker \<Rightarrow> 'a timed list \<Rightarrow> int \<Rightarrow> CircuitBreaker \<times> int" where
  "execute_all cb [] now = (cb, now)"
| "execute_all cb (fn # fns) now =
     (case execute cb fn now of ((r, t), cb') \<Rightarrow> execute_all cb' fns t)"

subsection \<open>Embedding cache\<close>

record 'v cache_entry =
  embedding :: 'v
  created_at :: int
  hit_count :: nat

text \<open>
  The \<open>Map\<close> keeps its keys in insertion order: an association list with distinct keys, where
  \<open>set\<close> on a present key replaces the value in place and on a new key appends.
\<close>

type_synonym 'v embeddingCache = "(string \<times> 'v cache_entry) list"

definition cacheKey :: "string \<Rightarrow> string \<Rightarrow> string" where
  "cacheKey model txt = model @ '':'' @ txt"

definition TTL :: int where
  "TTL = 24 * 3600 * 1000"

text \<open>
  \<open>getEmbedding(text, model)\<close> started at time \<open>now\<close>. \<open>generateEmbedding\<close> and \<open>evictLRU\<close> are
  not defined in the repository and are parameters.
\<close>

definition getEmbedding ::
  "(string \<Rightarrow> string \<Rightarrow> 'v timed) \<Rightarrow> ('v embeddingCache \<Rightarrow> 'v embeddingCache) \<Rightarrow>
   'v embeddingCache \<Rightarrow> string \<Rightarrow> string \<Rightarrow> int \<Rightarrow> ((thrown + 'v) \<times> int) \<times> 'v embeddingCache" where
  "getEmbedding generateEmbedding evictLRU cache txt model now =
     (case (case map_of cache (cacheKey model txt) of
              Some cached \<Rightarrow> if now - created_at cached < TTL then Some cached else None
            | None \<Rightarrow> None) of
        Some cached \<Rightarrow>
          ((Inr (embedding cached), now),
           AList.update (cacheKey model txt) (cached\<lparr>hit_count := hit_count cached + 1\<rparr>) cache)
      | None \<Rightarrow>
          (case generateEmbedding txt model now of
             (Inl e, t) \<Rightarrow> ((Inl e, t), cache)
           | (Inr v, t) \<Rightarrow>
               (let cache1 = AList.update (cacheKey model txt)
                               \<lparr>embedding = v, created_at = t, hit_count = 0\<rparr> cache
                in ((Inr v, t), if length cache1 > 10000 then evictLRU cache1 else cache1))))"

subsection \<open>Ranking\<close>

record RankingFactors =
  similarity :: real
  recency :: real
  frequency :: real
  importance_score :: real
  source_trust :: real
  entity_relevance :: real

definition computeRank :: "RankingFactors \<Rightarrow> real" where
  "computeRank factors =
     (similarity factors * 0.35) + (recency factors * 0.20) + (frequency factors * 0.15)
     + (importance_score factors * 0.15) + (source_trust factors * 0.10)
     + (entity_relevance factors * 0.05)"

subsection \<open>Chunking\<close>

text \<open>
  \<open>content.split(/\n\n+/)\<close>: the text between maximal runs of two or more newlines. The first
  argument is the paragraph read so far.
\<close>

function split_paragraphs_from :: "string \<Rightarrow> string \<Rightarrow> string list" where
  "split_paragraphs_from cur [] = [cur]"
| "split_paragraphs_from cur (c # cs) =
     (if c = CHR 0x0A \<and> cs \<noteq> [] \<and> hd cs = CHR 0x0A
      then cur # split_paragraphs_from [] (dropWhile (\<lambda>x. x = CHR 0x0A) cs)
      else split_paragraphs_from (cur @ [c]) cs)"
  by pat_completeness auto
termination
  by (relation "measure (\<lambda>(cur, cs). length cs)")
     (auto simp: less_Suc_eq_le length_dropWhile_le)

definition split_paragraphs :: "string \<Rightarrow> string list" where
  "split_paragraphs doc_content = split_paragraphs_from [] doc_content"

text \<open>
  The loop of \<open>smartChunk\<close> over the paragraphs, with the chunks pushed so far and the current
  chunk. \<open>estimateTokens\<close> is not defined in the repository and is a parameter.
\<close>

fun chunk_loop ::
  "(string \<Rightarrow> nat) \<Rightarrow> nat \<Rightarrow> string list \<Rightarrow> string list \<Rightarrow> string \<Rightarrow> string list \<times> string" where
  "chunk_loop estimateTokens chunkSize [] chunks currentChunk = (chunks, currentChunk)"
| "chunk_loop estimateTokens chunkSize (para # paragraphs) chunks currentChunk =
     (let paraTokens = estimateTokens para;
          currentTokens = estimateTokens currentChunk
      in if currentTokens + paraTokens > chunkSize \<and> currentChunk \<noteq> []
         then chunk_loop estimateTokens chunkSize paragraphs (chunks @ [currentChunk]) para
         else chunk_loop estimateTokens chunkSize paragraphs chunks
                (currentChunk @ (if currentChunk \<noteq> [] then [CHR 0x0A, CHR 0x0A] else []) @ para))"

definition smartChunk :: "(string \<Rightarrow> nat) \<Rightarrow> string \<Rightarrow> nat \<Rightarrow> string list" where
  "smartChunk estimateTokens doc_content chunkSize =
     (case chunk_loop estimateTokens chunkSize (split_paragraphs doc_content) [] [] of
        (chunks, currentChunk) \<Rightarrow>
          if currentChunk \<noteq> [] then chunks @ [currentChunk] else chunks)"

text \<open>
  The grouping in words, for comparison with the loop: paragraphs are gathered into a group
  until the next one would take the joined group over the budget; then the group is closed
  and the next paragraph opens a new one.
\<close>

fun join_paragraphs :: "string list \<Rightarrow> string" where
  "join_paragraphs [] = []"
| "join_paragraphs [p] = p"
| "join_paragraphs (p # ps) = p @ [CHR 0x0A, CHR 0x0A] @ join_paragraphs ps"

fun group_paragraphs ::
  "(string \<Rightarrow> nat) \<Rightarrow> nat \<Rightarrow> string list \<Rightarrow> string list \<Rightarrow> string list list" where
  "group_paragraphs estimateTokens chunkSize g [] = (if g = [] then [] else [g])"
| "group_paragraphs estimateTokens chunkSize g (p # ps) =
     (if g \<noteq> [] \<and> estimateTokens (join_paragraphs g) + estimateTokens p > chunkSize
      then g # group_paragraphs estimateTokens chunkSize [p] ps
      else group_paragraphs estimateTokens chunkSize (g @ [p]) ps)"

subsection \<open>Similarity query\<close>

text \<open>
  A row of the table \<open>memories\<close>, with the columns the queries read. The columns \<open>content\<close>,
  \<open>embedding\<close> and \<open>created_at\<close> carry the prefix \<open>mem_\<close> here.
\<close>

record 'v memory =
  memory_id :: nat
  conversation_id :: string
  mem_content :: string
  mem_embedding :: 'v
  mem_created_at :: int
  access_count :: nat
  is_archived :: bool

text \<open>
  The operator \<open><->\<close> of the query is the Euclidean distance of the vector extension. It is
  defined for two vectors of the same dimension; the query checks that before it uses it.
\<close>

definition l2_distance :: "real list \<Rightarrow> real list \<Rightarrow> real" where
  "l2_distance a b = sqrt (sum_list (map (\<lambda>(x, y). (x - y) ^ 2) (zip a b)))"

text \<open>
  The cosine distance in the words of the spec, one minus the cosine similarity, to compare
  with the operator the query uses.
\<close>

definition cosine_distance :: "real list \<Rightarrow> real list \<Rightarrow> real" where
  "cosine_distance a b =
     1 - sum_list (map (\<lambda>(x, y). x * y) (zip a b))
         / (sqrt (sum_list (map (\<lambda>x. x ^ 2) a)) * sqrt (sum_list (map (\<lambda>y. y ^ 2) b)))"

text \<open>
  The semantic search query. Its \<open>WHERE\<close> clause keeps the rows of one conversation that are
  not archived, and each kept row gets its distance column.
\<close>

definition search_candidates ::
  "real list memory list \<Rightarrow> real list \<Rightarrow> string \<Rightarrow> (real list memory \<times> real) list" where
  "search_candidates rows q conv =
     map (\<lambda>m. (m, l2_distance (mem_embedding m) q))
       (filter (\<lambda>m. conversation_id m = conv \<and> \<not> is_archived m) rows)"

definition dimensions_agree :: "real list memory list \<Rightarrow> real list \<Rightarrow> string \<Rightarrow> bool" where
  "dimensions_agree rows q conv =
     (\<forall>m\<in>set (filter (\<lambda>m. conversation_id m = conv \<and> \<not> is_archived m) rows).
        length (mem_embedding m) = length q)"

text \<open>
  \<open>ORDER BY distance LIMIT $3\<close> leaves the order of rows at equal distance open, so the query
  is a relation between the table and its outcomes: \<open>semantic_search rows q conv top_k out\<close>
  says that \<open>out\<close> is an outcome the database may give. The query fails when a kept row
  has another dimension than the query vector. Otherwise it returns \<open>top_k\<close> of the kept rows,
  or all of them when there are fewer, in ascending order of distance, and no row left out
  is nearer than a row returned.
\<close>

definition semantic_search ::
  "real list memory list \<Rightarrow> real list \<Rightarrow> string \<Rightarrow> nat \<Rightarrow>
   thrown + (real list memory \<times> real) list \<Rightarrow> bool" where
  "semantic_search rows q conv top_k outcome =
     (case outcome of
        Inl e \<Rightarrow> \<not> dimensions_agree rows q conv \<and> e = Error ''different vector dimensions''
      | Inr res \<Rightarrow>
          dimensions_agree rows q conv
          \<and> length res = min top_k (length (search_candidates rows q conv))
          \<and> sorted (map snd res)
          \<and> mset res \<subseteq># mset (search_candidates rows q conv)
          \<and> (\<forall>x\<in>set res. \<forall>y\<in>#mset (search_candidates rows q conv) - mset res. snd x \<le> snd y))"

text \<open>
  One way to run the query: read the table in the order of the list, sort stably, cut. It is
  one of the outcomes the relation allows.
\<close>

definition scan_and_sort ::
  "real list memory list \<Rightarrow> real list \<Rightarrow> string \<Rightarrow> nat \<Rightarrow> thrown + (real list memory \<times> real) list" where
  "scan_and_sort rows q conv top_k =
     (if dimensions_agree rows q conv
      then Inr (take top_k (sort_key snd (search_candidates rows q conv)))
      else Inl (Error ''different vector dimensions''))"

subsection \<open>Storing a memory with the duplicate check\<close>






section \<open>Scenarios\<close>

text \<open>
  An embedding service that cannot be reached, one that answers every request with the same
  single embedding, and the same tool call made several times in a row.
\<close>

definition unreachable_env :: env where
  "unreachable_env =
     \<lparr>OLLAMA_HOST = ''http://127.0.0.1:11434'',
      service = (\<lambda>r w. Inl (Error ''connect ECONNREFUSED 127.0.0.1:11434''))\<rparr>"

definition healthy_env :: env where
  "healthy_env =
     \<lparr>OLLAMA_HOST = ''http://127.0.0.1:11434'',
      service = (\<lambda>r w. Inr (Obj [(''embeddings'', Arr [Arr [Num 1, Num 2]])]))\<rparr>"

definition embed_call :: tool_request where
  "embed_call =
     \<lparr>name = ''generate_embedding'',
      arguments = Obj [(''model'', Str ''nomic-embed-text''), (''text'', Str ''hello'')]\<rparr>"

fun call_tool_times :: "nat \<Rightarrow> env \<Rightarrow> tool_request \<Rightarrow> world \<Rightarrow> tool_result list \<times> world" where
  "call_tool_times 0 E req w = ([], w)"
| "call_tool_times (Suc n) E req w =
     (case call_tool E req w of
        (r, w') \<Rightarrow> (case call_tool_times n E req w' of (rs, w'') \<Rightarrow> (r # rs, w'')))"


definition example_memory :: "nat \<Rightarrow> string \<Rightarrow> string \<Rightarrow> real list \<Rightarrow> real list memory" where
  "example_memory i conv tx e =
     \<lparr>memory_id = i, conversation_id = conv, mem_content = tx, mem_embedding = e,
      mem_created_at = 0, access_count = 0, is_archived = False\<rparr>"

section \<open>Properties of the tool server\<close>

subsection \<open>The effect monad\<close>

lemma bind_lift_Inr [simp]: "bind (lift (Inr x)) f = f x"
  by (rule ext) (simp add: bind_def lift_def)

lemma bind_lift_Inl [simp]: "bind (lift (Inl e)) f = throw e"
  by (rule ext) (simp add: bind_def lift_def throw_def)

lemma bind_axios: "bind (axios E r) f w =
   (case service E r w of Inl e \<Rightarrow> (Inl e, w @ [r]) | Inr d \<Rightarrow> f d (w @ [r]))"
  by (simp add: bind_def axios_def split: sum.splits)

lemma snd_bind_axios: "\<forall>d w'. snd (f d w') = w'
   \<Longrightarrow> snd (bind (axios E r) f w) = w @ [r]"
  by (simp add: bind_axios split: sum.splits)

lemma snd_bind_lift: "\<forall>d w'. snd (f d w') = w' \<Longrightarrow> snd (bind (lift x) f w) = w"
  by (cases x) (simp_all add: throw_def)

lemma generate_completion_world:
  assumes "member args ''model'' = Inr m" and "member args ''prompt'' = Inr p"
    and "member args ''temperature'' = Inr t" and "member args ''top_k'' = Inr k"
    and "member args ''top_p'' = Inr q"
  shows "snd (generate_completion E args w) =
     w @ [completion_request E m p (js_or t (Num 0.7)) (js_or k (Num 40)) (js_or q (Num 0.9))]"
  using assms
  by (simp add: generate_completion_def snd_bind_axios snd_bind_lift ret_def)

text \<open>
  Claim C10. In \<open>generate_completion\<close> a sampling parameter supplied as \<open>0\<close> cannot be told
  from an absent one: whenever \<open>temperature\<close>, \<open>top_k\<close> or \<open>top_p\<close> is \<open>0\<close> (or is absent), the
  one request sent to the generation service carries the default \<open>0.7\<close>, \<open>40\<close> or \<open>0.9\<close> in its
  place.
\<close>

theorem generate_completion_zero_is_default:
  assumes "member args ''model'' = Inr m" and "member args ''prompt'' = Inr p"
    and "member args ''temperature'' = Inr t" and "member args ''top_k'' = Inr k"
    and "member args ''top_p'' = Inr q"
  shows "\<exists>t' k' q'.
       snd (generate_completion E args w) = w @ [completion_request E m p t' k' q']
     \<and> (t = Num 0 \<or> t = Undefined \<longrightarrow> t' = Num 0.7)
     \<and> (k = Num 0 \<or> k = Undefined \<longrightarrow> k' = Num 40)
     \<and> (q = Num 0 \<or> q = Undefined \<longrightarrow> q' = Num 0.9)"
proof -
  have "t = Num 0 \<or> t = Undefined \<Longrightarrow> js_or t (Num 0.7) = Num 0.7"
    and "k = Num 0 \<or> k = Undefined \<Longrightarrow> js_or k (Num 40) = Num 40"
    and "q = Num 0 \<or> q = Undefined \<Longrightarrow> js_or q (Num 0.9) = Num 0.9"
    by (auto simp: js_or_def)
  with generate_completion_world [OF assms, of E w] show ?thesis by blast
qed


theorem generate_completion_zero_is_default_witness:
  "member (Obj [(''model'', Str ''llama2''), (''prompt'', Str ''hi''), (''temperature'', Num 0),
                (''top_p'', Num 0.5)]) ''temperature'' = Inr (Num 0)
   \<and> (\<exists>t' k' q'.
        snd (generate_completion
               \<lparr>OLLAMA_HOST = ''http://127.0.0.1:11434'', service = (\<lambda>r w. Inl (Error ''timeout''))\<rparr>
               (Obj [(''model'', Str ''llama2''), (''prompt'', Str ''hi''), (''temperature'', Num 0),
                     (''top_p'', Num 0.5)]) [])
        = [completion_request
             \<lparr>OLLAMA_HOST = ''http://127.0.0.1:11434'', service = (\<lambda>r w. Inl (Error ''timeout''))\<rparr>
             (Str ''llama2'') (Str ''hi'') t' k' q']
        \<and> t' = Num 0.7 \<and> k' = Num 40)"
  using generate_completion_zero_is_default
    [of "Obj [(''model'', Str ''llama2''), (''prompt'', Str ''hi''), (''temperature'', Num 0),
              (''top_p'', Num 0.5)]"
        "Str ''llama2''" "Str ''hi''" "Num 0" Undefined "Num 0.5"
        "\<lparr>OLLAMA_HOST = ''http://127.0.0.1:11434'', service = (\<lambda>r w. Inl (Error ''timeout''))\<rparr>"
        "[]"]
  by simp

lemma run_tool_unknown:
  "name req \<notin> set tools \<Longrightarrow>
   run_tool E req = ret \<lparr>content = Plain (''Unknown tool: '' @ name req), isError = True\<rparr>"
  by (simp add: run_tool_def tools_def)

text \<open>
  Claim C9. The dispatcher always returns a result. Whatever the \<open>switch\<close> body throws is
  turned into a result with \<open>isError\<close> set and a text that begins with
  \<open>Error executing tool:\<close>; a tool name outside the published list gives a result with
  \<open>isError\<close> set and the text \<open>Unknown tool:\<close> followed by the name, without any request
  being issued.
\<close>

theorem call_tool_total:
  "(\<exists>r w'. call_tool E req w = (r, w'))
   \<and> (\<forall>e w'. run_tool E req w = (Inl e, w') \<longrightarrow>
         call_tool E req w = (error_result e, w') \<and> isError (error_result e)
         \<and> (\<exists>msg. content (error_result e) = Plain (''Error executing tool: '' @ msg)))
   \<and> (name req \<notin> set tools \<longrightarrow>
         call_tool E req w =
           (\<lparr>content = Plain (''Unknown tool: '' @ name req), isError = True\<rparr>, w))"
proof (intro conjI allI impI)
  show "\<exists>r w'. call_tool E req w = (r, w')"
    by (cases "call_tool E req w") blast
next
  fix e w' assume "run_tool E req w = (Inl e, w')"
  then show "call_tool E req w = (error_result e, w')"
    by (simp add: call_tool_def)
next
  fix e show "isError (error_result e)"
    by (simp add: error_result_def)
next
  fix e show "\<exists>msg. content (error_result e) = Plain (''Error executing tool: '' @ msg)"
    by (simp add: error_result_def)
next
  assume "name req \<notin> set tools"
  then show "call_tool E req w =
      (\<lparr>content = Plain (''Unknown tool: '' @ name req), isError = True\<rparr>, w)"
    by (simp add: call_tool_def run_tool_unknown ret_def)
qed

theorem call_tool_total_witness:
  "run_tool \<lparr>OLLAMA_HOST = ''http://127.0.0.1:11434'', service = (\<lambda>r w. Inl (Error ''timeout of 30000ms exceeded''))\<rparr>
      \<lparr>name = ''generate_embedding'', arguments = Obj [(''model'', Str ''m''), (''text'', Str ''t'')]\<rparr> []
    = (Inl (Error ''timeout of 30000ms exceeded''),
       [embed_request \<lparr>OLLAMA_HOST = ''http://127.0.0.1:11434'', service = (\<lambda>r w. Inl (Error ''timeout of 30000ms exceeded''))\<rparr> (Str ''m'') (Str ''t'')])
   \<and> fst (call_tool \<lparr>OLLAMA_HOST = ''http://127.0.0.1:11434'', service = (\<lambda>r w. Inl (Error ''timeout of 30000ms exceeded''))\<rparr>
      \<lparr>name = ''generate_embedding'', arguments = Obj [(''model'', Str ''m''), (''text'', Str ''t'')]\<rparr> [])
    = \<lparr>content = Plain ''Error executing tool: timeout of 30000ms exceeded'', isError = True\<rparr>
   \<and> ''no_such_tool'' \<notin> set tools
   \<and> call_tool \<lparr>OLLAMA_HOST = ''http://127.0.0.1:11434'', service = (\<lambda>r w. Inl (Error ''timeout of 30000ms exceeded''))\<rparr>
      \<lparr>name = ''no_such_tool'', arguments = Undefined\<rparr> []
    = (\<lparr>content = Plain ''Unknown tool: no_such_tool'', isError = True\<rparr>, [])"
proof -
  let ?E = "\<lparr>OLLAMA_HOST = ''http://127.0.0.1:11434'', service = (\<lambda>r w. Inl (Error ''timeout of 30000ms exceeded''))\<rparr>"
  let ?req = "\<lparr>name = ''generate_embedding'', arguments = Obj [(''model'', Str ''m''), (''text'', Str ''t'')]\<rparr>"
  have run: "run_tool ?E ?req [] = (Inl (Error ''timeout of 30000ms exceeded''), [embed_request ?E (Str ''m'') (Str ''t'')])"
    by (simp add: run_tool_def generate_embedding_def bind_axios)
  have unk: "''no_such_tool'' \<notin> set tools"
    by (simp add: tools_def)
  from call_tool_total [of ?E ?req "[]"] run
  have "call_tool ?E ?req [] = (error_result (Error ''timeout of 30000ms exceeded''), [embed_request ?E (Str ''m'') (Str ''t'')])"
    by blast
  then have a: "fst (call_tool ?E ?req []) = \<lparr>content = Plain ''Error executing tool: timeout of 30000ms exceeded'', isError = True\<rparr>"
    by (simp add: error_result_def)
  from call_tool_total [of ?E "\<lparr>name = ''no_such_tool'', arguments = Undefined\<rparr>" "[]"] unk
  have b: "call_tool ?E \<lparr>name = ''no_such_tool'', arguments = Undefined\<rparr> []
    = (\<lparr>content = Plain ''Unknown tool: no_such_tool'', isError = True\<rparr>, [])"
    by simp
  from run a unk b show ?thesis by blast
qed

lemma fst_call_tool:
  "fst (call_tool E req w) = (case fst (run_tool E req w) of Inr r \<Rightarrow> r | Inl e \<Rightarrow> error_result e)"
  by (simp add: call_tool_def split: prod.splits sum.splits)

lemma generate_embedding_pure:
  assumes "service E = (\<lambda>r _. f r)"
  shows "fst (generate_embedding E args w) = fst (generate_embedding E args [])"
  using assms
  by (simp add: generate_embedding_def bind_def lift_def axios_def ret_def
           split: sum.splits prod.splits)

text \<open>
  The health check is the one handler that catches what its request throws: it never throws
  itself, and reports an unreachable service as an unhealthy status without \<open>isError\<close>.
\<close>

lemma check_ollama_health_never_throws:
  "\<exists>r w'. check_ollama_health E args w = (Inr r, w') \<and> \<not> isError r"
  by (auto simp: check_ollama_health_def ok_result_def bind_def ret_def lift_def axios_def
           split: sum.splits prod.splits)

text \<open>
  Claim C8. With the embedding service a pure function of the request, \<open>generate_embedding\<close>
  is deterministic: the same request gives the same result in every world, that is after
  any history of earlier calls, so two calls with the same model and text return identical
  vectors.
\<close>

theorem generate_embedding_deterministic:
  assumes "service E = (\<lambda>r _. f r)" and "name req = ''generate_embedding''"
  shows "fst (call_tool E req w1) = fst (call_tool E req w2)"
proof -
  have "fst (generate_embedding E (arguments req) w1) = fst (generate_embedding E (arguments req) w2)"
    using generate_embedding_pure [OF assms(1), of _ w1]
          generate_embedding_pure [OF assms(1), of _ w2] by simp
  then show ?thesis using assms(2)
    by (simp add: fst_call_tool run_tool_def)
qed

theorem generate_embedding_deterministic_witness:
  "fst (call_tool \<lparr>OLLAMA_HOST = ''http://127.0.0.1:11434'',
                    service = (\<lambda>r _. Inr (Obj [(''embeddings'', Arr [Arr [Num 1, Num 2]])]))\<rparr>
         \<lparr>name = ''generate_embedding'', arguments = Obj [(''model'', Str ''m''), (''text'', Str ''t'')]\<rparr>
         [])
   = fst (call_tool \<lparr>OLLAMA_HOST = ''http://127.0.0.1:11434'',
                    service = (\<lambda>r _. Inr (Obj [(''embeddings'', Arr [Arr [Num 1, Num 2]])]))\<rparr>
         \<lparr>name = ''generate_embedding'', arguments = Obj [(''model'', Str ''m''), (''text'', Str ''t'')]\<rparr>
         [\<lparr>meth = GET, url = ''http://127.0.0.1:11434/api/tags'', body = Undefined, timeout_ms = None\<rparr>])"
  using generate_embedding_deterministic
    [of "\<lparr>OLLAMA_HOST = ''http://127.0.0.1:11434'',
          service = (\<lambda>r _. Inr (Obj [(''embeddings'', Arr [Arr [Num 1, Num 2]])]))\<rparr>"
        "\<lambda>r. Inr (Obj [(''embeddings'', Arr [Arr [Num 1, Num 2]])])"
        "\<lparr>name = ''generate_embedding'', arguments = Obj [(''model'', Str ''m''), (''text'', Str ''t'')]\<rparr>"
        "[]"
        "[\<lparr>meth = GET, url = ''http://127.0.0.1:11434/api/tags'', body = Undefined, timeout_ms = None\<rparr>]"]
  by simp

lemma embed_each_pure:
  assumes "service E = (\<lambda>r _. f r)"
    and "\<forall>t\<in>set ts. \<exists>d. f (embed_request E m t) = Inr d \<and> first_embedding d = Inr (emb t)"
  shows "embed_each E m ts acc w =
     (Inr (acc @ map (\<lambda>t. Obj [(''text'', t), (''embedding'', emb t)]) ts),
      w @ map (embed_request E m) ts)"
  using assms(2)
proof (induction ts arbitrary: acc w)
  case Nil
  then show ?case by (simp add: ret_def)
next
  case (Cons t ts)
  from Cons.prems obtain d where d: "f (embed_request E m t) = Inr d" "first_embedding d = Inr (emb t)"
    by auto
  from Cons.prems have rest: "\<forall>t\<in>set ts. \<exists>d. f (embed_request E m t) = Inr d \<and> first_embedding d = Inr (emb t)"
    by simp
  show ?case
    by (simp add: bind_axios assms(1) d Cons.IH [OF rest])
qed

text \<open>
  Claim C1. \<open>batch_embeddings\<close> returns one entry per input text, in input order: when the
  service answers every text with an embedding, the result holds exactly as many entries as
  there are texts and the \<open>i\<close>-th entry pairs the \<open>i\<close>-th text with its embedding. The
  requests are issued one after the other in input order, each awaited before the next, so
  no other completion order exists.
\<close>

theorem batch_embeddings_preserves_order:
  assumes "service E = (\<lambda>r _. f r)"
    and "member args ''model'' = Inr m"
    and "member args ''texts'' = Inr (Arr ts)"
    and "\<forall>t\<in>set ts. \<exists>d. f (embed_request E m t) = Inr d \<and> first_embedding d = Inr (emb t)"
  shows "\<exists>es. batch_embeddings E args w =
          (Inr (ok_result (Stringified
                  (Obj [(''model'', m), (''count'', Num (real (length ts))),
                        (''embeddings'', Arr es)]))),
           w @ map (embed_request E m) ts)
        \<and> length es = length ts
        \<and> (\<forall>i<length ts. es ! i = Obj [(''text'', ts ! i), (''embedding'', emb (ts ! i))])"
proof -
  let ?es = "map (\<lambda>t. Obj [(''text'', t), (''embedding'', emb t)]) ts"
  have "batch_embeddings E args w =
          (Inr (ok_result (Stringified
                  (Obj [(''model'', m), (''count'', Num (real (length ts))),
                        (''embeddings'', Arr ?es)]))),
           w @ map (embed_request E m) ts)"
    by (simp add: batch_embeddings_def assms(2,3) bind_def ret_def
                  embed_each_pure [OF assms(1,4)])
  moreover have "length ?es = length ts" by simp
  moreover have "\<forall>i<length ts. ?es ! i = Obj [(''text'', ts ! i), (''embedding'', emb (ts ! i))]"
    by simp
  ultimately show ?thesis by blast
qed


theorem batch_embeddings_preserves_order_witness:
  "\<exists>es. batch_embeddings
          \<lparr>OLLAMA_HOST = ''h'',
           service = (\<lambda>r _. case member (body r) ''input'' of Inl e \<Rightarrow> Inl e
                              | Inr v \<Rightarrow> Inr (Obj [(''embeddings'', Arr [Arr [v]])]))\<rparr>
          (Obj [(''model'', Str ''m''), (''texts'', Arr [Str ''b'', Str ''a''])]) []
        = (Inr (ok_result (Stringified
                  (Obj [(''model'', Str ''m''), (''count'', Num 2), (''embeddings'', Arr es)]))),
           [\<lparr>meth = POST, url = ''h/api/embed'',
             body = Obj [(''model'', Str ''m''), (''input'', Str ''b'')], timeout_ms = Some 30000\<rparr>,
            \<lparr>meth = POST, url = ''h/api/embed'',
             body = Obj [(''model'', Str ''m''), (''input'', Str ''a'')], timeout_ms = Some 30000\<rparr>])
      \<and> length es = 2
      \<and> es ! 0 = Obj [(''text'', Str ''b''), (''embedding'', Arr [Str ''b''])]
      \<and> es ! 1 = Obj [(''text'', Str ''a''), (''embedding'', Arr [Str ''a''])]"
proof -
  let ?f = "\<lambda>r. case member (body r) ''input'' of Inl e \<Rightarrow> Inl e
                 | Inr v \<Rightarrow> Inr (Obj [(''embeddings'', Arr [Arr [v]])])"
  let ?E = "\<lparr>OLLAMA_HOST = ''h'', service = (\<lambda>r _. ?f r)\<rparr>"
  let ?ts = "[Str ''b'', Str ''a'']"
  have h: "\<forall>t\<in>set ?ts. \<exists>d. ?f (embed_request ?E (Str ''m'') t) = Inr d
             \<and> first_embedding d = Inr (Arr [t])"
    by (simp add: embed_request_def first_embedding_def)
  from batch_embeddings_preserves_order
         [of ?E ?f "Obj [(''model'', Str ''m''), (''texts'', Arr ?ts)]" "Str ''m''" ?ts
             "\<lambda>t. Arr [t]" "[]", OF _ _ _ h]
  obtain es where es: "batch_embeddings ?E (Obj [(''model'', Str ''m''), (''texts'', Arr ?ts)]) []
        = (Inr (ok_result (Stringified
                  (Obj [(''model'', Str ''m''), (''count'', Num (real (length ?ts))), (''embeddings'', Arr es)]))),
           [] @ map (embed_request ?E (Str ''m'')) ?ts)"
      "length es = length ?ts"
      "\<forall>i<length ?ts. es ! i = Obj [(''text'', ?ts ! i), (''embedding'', Arr [?ts ! i])]"
    by auto
  from es(3) have "es ! 0 = Obj [(''text'', Str ''b''), (''embedding'', Arr [Str ''b''])]"
    and "es ! 1 = Obj [(''text'', Str ''a''), (''embedding'', Arr [Str ''a''])]"
    by auto
  with es(1,2) show ?thesis
    by (intro exI [of _ es]) (simp add: embed_request_def)
qed

section \<open>Properties of the components of the design documents\<close>

subsection \<open>Ranking\<close>


text \<open>
  Claim C7. The rank is monotone in the access frequency: with every other factor fixed and
  the frequency factor computed from \<open>accessCount\<close> by any non-decreasing function, a larger
  \<open>accessCount\<close> never gives a smaller rank. The repository has no function from
  \<open>accessCount\<close> to the frequency factor, so it is the parameter \<open>freq\<close>; numbers are reals.
\<close>

theorem computeRank_monotone_in_accessCount:
  fixes freq :: "nat \<Rightarrow> real"
  assumes "\<forall>a b. a \<le> b \<longrightarrow> freq a \<le> freq b"
    and "accessCount \<le> accessCount'"
  shows "computeRank (factors\<lparr>frequency := freq accessCount\<rparr>)
       \<le> computeRank (factors\<lparr>frequency := freq accessCount'\<rparr>)"
proof -
  from assms have "freq accessCount \<le> freq accessCount'" by blast
  then show ?thesis by (simp add: computeRank_def)
qed

theorem computeRank_monotone_in_accessCount_witness:
  "(3::nat) \<le> 50
   \<and> computeRank \<lparr>similarity = 0.8, recency = 0.5, frequency = min 1 (real (3::nat) / 10),
                    importance_score = 0, source_trust = 1, entity_relevance = 0\<rparr>
     \<le> computeRank \<lparr>similarity = 0.8, recency = 0.5, frequency = min 1 (real (50::nat) / 10),
                    importance_score = 0, source_trust = 1, entity_relevance = 0\<rparr>"
proof -
  have mono: "\<forall>a b. a \<le> b \<longrightarrow> min 1 (real a / 10) \<le> min 1 (real b / 10)"
    by (auto simp: min_def divide_right_mono)
  have le: "(3::nat) \<le> 50" by simp
  from computeRank_monotone_in_accessCount [of "\<lambda>n. min 1 (real n / 10)" 3 50
         "\<lparr>similarity = 0.8, recency = 0.5, frequency = 0,
           importance_score = 0, source_trust = 1, entity_relevance = 0\<rparr>", OF mono le]
  have "computeRank \<lparr>similarity = 0.8, recency = 0.5, frequency = min 1 (real (3::nat) / 10),
                    importance_score = 0, source_trust = 1, entity_relevance = 0\<rparr>
     \<le> computeRank \<lparr>similarity = 0.8, recency = 0.5, frequency = min 1 (real (50::nat) / 10),
                    importance_score = 0, source_trust = 1, entity_relevance = 0\<rparr>"
    by simp
  with le show ?thesis by blast
qed

subsection \<open>Circuit breaker\<close>

lemma execute_open_within_timeout:
  "state cb = Open \<Longrightarrow> now - lastFailureTime cb \<le> timeout cb \<Longrightarrow>
   execute cb fn now = ((Inl (Error ''Circuit breaker is open''), now), cb)"
  by (simp add: execute_def)

lemma execute_closed_failure:
  "state cb = Closed \<Longrightarrow> fn now = (Inl e, t) \<Longrightarrow>
   execute cb fn now = ((Inl e, t), onFailure cb t)"
  by (simp add: execute_def)

lemma execute_probe_success:
  "state cb = Open \<Longrightarrow> now - lastFailureTime cb > timeout cb \<Longrightarrow> fn now = (Inr r, t) \<Longrightarrow>
   execute cb fn now = ((Inr r, t), cb\<lparr>failures := 0, state := Closed\<rparr>)"
  by (simp add: execute_def onSuccess_def)

lemma execute_probe_failure:
  "state cb = Open \<Longrightarrow> now - lastFailureTime cb > timeout cb \<Longrightarrow> fn now = (Inl e, t) \<Longrightarrow>
   failureThreshold cb \<le> failures cb + 1 \<Longrightarrow>
   execute cb fn now = ((Inl e, t), cb\<lparr>failures := failures cb + 1, lastFailureTime := t, state := Open\<rparr>)"
  by (simp add: execute_def onFailure_def Let_def)

text \<open>Failures below the threshold leave a closed breaker closed and are counted.\<close>

lemma failures_from_closed:
  assumes "state cb = Closed"
    and "\<forall>fn\<in>set fns. \<forall>t. \<exists>e t'. fn t = (Inl e, t')"
    and "failures cb + length fns < failureThreshold cb"
  shows "\<exists>t'. execute_all cb fns now =
           (cb\<lparr>failures := failures cb + length fns,
               lastFailureTime := (if fns = [] then lastFailureTime cb else t')\<rparr>, t')"
  using assms
proof (induction fns arbitrary: cb now)
  case Nil
  then show ?case by simp
next
  case (Cons fn fns)
  from Cons.prems(2) obtain e t where fn: "fn now = (Inl e, t)" by (meson list.set_intros(1))
  let ?cb = "cb\<lparr>failures := failures cb + 1, lastFailureTime := t\<rparr>"
  from Cons.prems have step: "execute cb fn now = ((Inl e, t), ?cb)"
    using execute_closed_failure [of cb fn now e t] fn
    by (simp add: onFailure_def Let_def)
  have "state ?cb = Closed" using Cons.prems(1) by simp
  moreover have "\<forall>fn\<in>set fns. \<forall>t. \<exists>e t'. fn t = (Inl e, t')" using Cons.prems(2) by simp
  moreover have "failures ?cb + length fns < failureThreshold ?cb" using Cons.prems(3) by simp
  ultimately obtain t' where "execute_all ?cb fns t =
           (?cb\<lparr>failures := failures ?cb + length fns,
               lastFailureTime := (if fns = [] then lastFailureTime ?cb else t')\<rparr>, t')"
    using Cons.IH [of ?cb t] by blast
  then show ?case using step
    by (cases "fns = []") auto
qed


lemma execute_all_append:
  "execute_all cb (xs @ ys) now =
     (case execute_all cb xs now of (cb', t) \<Rightarrow> execute_all cb' ys t)"
  by (induction xs arbitrary: cb now) (auto split: prod.splits)

lemma five_failures_open:
  assumes "state cb0 = Closed" and "failures cb0 = 0" and "failureThreshold cb0 = 5"
    and "length fns = 5"
    and "\<forall>fn\<in>set fns. \<forall>t. \<exists>e t'. fn t = (Inl e, t')"
    and "execute_all cb0 fns t0 = (cb, t1)"
  shows "cb = cb0\<lparr>failures := 5, lastFailureTime := t1, state := Open\<rparr>"
proof -
  from assms(4) obtain fns4 fn5 where fns: "fns = fns4 @ [fn5]" and len: "length fns4 = 4"
    by (cases fns rule: rev_cases) auto
  have f4: "\<forall>fn\<in>set fns4. \<forall>t. \<exists>e t'. fn t = (Inl e, t')" using assms(5) fns by simp
  have "failures cb0 + length fns4 < failureThreshold cb0" using assms(2,3) len by simp
  from failures_from_closed [OF assms(1) f4 this, of t0]
  obtain t4 where e4: "execute_all cb0 fns4 t0 =
      (cb0\<lparr>failures := failures cb0 + length fns4,
           lastFailureTime := (if fns4 = [] then lastFailureTime cb0 else t4)\<rparr>, t4)"
    by blast
  let ?cb4 = "cb0\<lparr>failures := 4, lastFailureTime := t4\<rparr>"
  from len have "fns4 \<noteq> []" by auto
  with e4 len assms(2) have e4': "execute_all cb0 fns4 t0 = (?cb4, t4)" by simp
  from assms(5) fns have "\<exists>e t5. fn5 t4 = (Inl e, t5)" by simp
  then obtain e t5 where f5: "fn5 t4 = (Inl e, t5)" by blast
  have "execute ?cb4 fn5 t4 = ((Inl e, t5), onFailure ?cb4 t5)"
    using execute_closed_failure [of ?cb4 fn5 t4 e t5] assms(1) f5 by simp
  then have "execute_all cb0 fns t0 = (onFailure ?cb4 t5, t5)"
    by (simp add: fns execute_all_append e4')
  with assms(6) have "cb = onFailure ?cb4 t5" and "t1 = t5" by auto
  then show "cb = cb0\<lparr>failures := 5, lastFailureTime := t1, state := Open\<rparr>"
    using assms(3) by (simp add: onFailure_def Let_def)
qed

text \<open>
  Claim C2, as amended. The class \<open>CircuitBreaker\<close>, taken alone: from a closed breaker with
  no failure counted and threshold 5, five failing calls in a row leave it open. While it is
  open and no more than \<open>timeout\<close> has passed since the last failure, a call fails with
  \<open>Circuit breaker is open\<close> and leaves the breaker and the clock as they were, whatever \<open>fn\<close>
  is: \<open>fn\<close> is not run. Once more than \<open>timeout\<close> has passed, the next call runs \<open>fn\<close>: its
  success closes the breaker and clears the count, its failure opens it again.
\<close>

theorem circuit_breaker_cycle:
  assumes "state cb0 = Closed" and "failures cb0 = 0" and "failureThreshold cb0 = 5"
    and "length fns = 5"
    and "\<forall>fn\<in>set fns. \<forall>t. \<exists>e t'. fn t = (Inl e, t')"
    and "execute_all cb0 fns t0 = (cb, t1)"
  shows "state cb = Open \<and> failures cb = 5 \<and> lastFailureTime cb = t1
     \<and> (now - lastFailureTime cb \<le> timeout cb \<longrightarrow>
           execute cb fn now = ((Inl (Error ''Circuit breaker is open''), now), cb))
     \<and> (now - lastFailureTime cb > timeout cb \<longrightarrow> fn now = (Inr r, t) \<longrightarrow>
           execute cb fn now = ((Inr r, t), cb\<lparr>failures := 0, state := Closed\<rparr>))
     \<and> (now - lastFailureTime cb > timeout cb \<longrightarrow> fn now = (Inl e, t) \<longrightarrow>
           execute cb fn now =
             ((Inl e, t), cb\<lparr>failures := 6, lastFailureTime := t, state := Open\<rparr>))"
proof -
  have cb: "cb = cb0\<lparr>failures := 5, lastFailureTime := t1, state := Open\<rparr>"
    using five_failures_open [OF assms] by simp
  then have st: "state cb = Open" and n: "failures cb = 5" and th: "failureThreshold cb = 5"
    and lf: "lastFailureTime cb = t1"
    using assms(3) by simp_all
  have a: "now - lastFailureTime cb \<le> timeout cb \<longrightarrow>
           execute cb fn now = ((Inl (Error ''Circuit breaker is open''), now), cb)"
    using st by (simp add: execute_open_within_timeout)
  have b: "now - lastFailureTime cb > timeout cb \<longrightarrow> fn now = (Inr r, t) \<longrightarrow>
           execute cb fn now = ((Inr r, t), cb\<lparr>failures := 0, state := Closed\<rparr>)"
    using st by (simp add: execute_probe_success)
  have c: "now - lastFailureTime cb > timeout cb \<longrightarrow> fn now = (Inl e, t) \<longrightarrow>
           execute cb fn now =
             ((Inl e, t), cb\<lparr>failures := 6, lastFailureTime := t, state := Open\<rparr>)"
    using st n th by (simp add: execute_probe_failure)
  from st n lf a b c show ?thesis by blast
qed

theorem circuit_breaker_cycle_witness:
  "execute_all new_CircuitBreaker
       (replicate 5 (\<lambda>t. (Inl (Error ''ECONNREFUSED'') :: thrown + nat, t + 10))) 0
     = (\<lparr>state = Open, failures = 5, lastFailureTime = 50, failureThreshold = 5, timeout = 60000\<rparr>, 50)
   \<and> execute \<lparr>state = Open, failures = 5, lastFailureTime = 50, failureThreshold = 5, timeout = 60000\<rparr>
        (\<lambda>t. (Inr (1::nat), t + 10)) 60050
     = ((Inl (Error ''Circuit breaker is open''), 60050),
        \<lparr>state = Open, failures = 5, lastFailureTime = 50, failureThreshold = 5, timeout = 60000\<rparr>)
   \<and> execute \<lparr>state = Open, failures = 5, lastFailureTime = 50, failureThreshold = 5, timeout = 60000\<rparr>
        (\<lambda>t. (Inr (1::nat), t + 10)) 60051
     = ((Inr 1, 60061),
        \<lparr>state = Closed, failures = 0, lastFailureTime = 50, failureThreshold = 5, timeout = 60000\<rparr>)
   \<and> execute \<lparr>state = Open, failures = 5, lastFailureTime = 50, failureThreshold = 5, timeout = 60000\<rparr>
        (\<lambda>t. (Inl (Error ''ECONNREFUSED'') :: thrown + nat, t + 10)) 60051
     = ((Inl (Error ''ECONNREFUSED''), 60061),
        \<lparr>state = Open, failures = 6, lastFailureTime = 60061, failureThreshold = 5, timeout = 60000\<rparr>)"
proof -
  let ?fail = "\<lambda>t::int. (Inl (Error ''ECONNREFUSED'') :: thrown + nat, t + 10)"
  let ?ok = "\<lambda>t::int. (Inr (1::nat) :: thrown + nat, t + 10)"
  let ?cb = "\<lparr>state = Open, failures = 5, lastFailureTime = 50, failureThreshold = 5, timeout = 60000\<rparr>"
  have run: "execute_all new_CircuitBreaker (replicate 5 ?fail) 0 = (?cb, 50)"
    by (simp add: eval_nat_numeral new_CircuitBreaker_def execute_def onFailure_def Let_def)
  have h: "state new_CircuitBreaker = Closed" "failures new_CircuitBreaker = 0"
    "failureThreshold new_CircuitBreaker = 5" "length (replicate 5 ?fail) = 5"
    "\<forall>fn\<in>set (replicate 5 ?fail). \<forall>t. \<exists>e t'. fn t = (Inl e, t')"
    by (simp_all add: new_CircuitBreaker_def)
  have "execute ?cb ?ok 60050 = ((Inl (Error ''Circuit breaker is open''), 60050), ?cb)"
    using circuit_breaker_cycle [OF h run, of 60050 ?ok] by simp
  moreover have "execute ?cb ?ok 60051 = ((Inr 1, 60061), ?cb\<lparr>failures := 0, state := Closed\<rparr>)"
    using circuit_breaker_cycle [OF h run, of 60051 ?ok 1 60061] by simp
  moreover have "execute ?cb ?fail 60051 =
      ((Inl (Error ''ECONNREFUSED''), 60061), ?cb\<lparr>failures := 6, lastFailureTime := 60061, state := Open\<rparr>)"
    using circuit_breaker_cycle [OF h run, of 60051 ?fail _ 60061 "Error ''ECONNREFUSED''"] by simp
  ultimately show ?thesis using run by simp
qed

lemma call_unreachable:
  "call_tool unreachable_env embed_call w
   = (\<lparr>content = Plain ''Error executing tool: connect ECONNREFUSED 127.0.0.1:11434'',
       isError = True\<rparr>,
      w @ [embed_request unreachable_env (Str ''nomic-embed-text'') (Str ''hello'')])"
  by (simp add: call_tool_def run_tool_def embed_call_def generate_embedding_def
        bind_def lift_def axios_def unreachable_env_def error_result_def)

text \<open>
  The tool server does not put its embedding calls behind the breaker: with the service
  unreachable, six calls of \<open>generate_embedding\<close> in a row issue six requests, and the sixth
  fails with the error of the service like the five before it.
\<close>

theorem generate_embedding_has_no_breaker:
  "call_tool_times 6 unreachable_env embed_call []
   = (replicate 6 \<lparr>content = Plain ''Error executing tool: connect ECONNREFUSED 127.0.0.1:11434'',
                    isError = True\<rparr>,
      replicate 6 (embed_request unreachable_env (Str ''nomic-embed-text'') (Str ''hello'')))"
  by (simp add: eval_nat_numeral call_unreachable)

subsection \<open>Embedding cache\<close>


lemma getEmbedding_hit:
  assumes "map_of cache (cacheKey model tx) = Some cached" and "now - created_at cached < TTL"
  shows "getEmbedding gen ev cache tx model now =
     ((Inr (embedding cached), now),
      AList.update (cacheKey model tx) (cached\<lparr>hit_count := hit_count cached + 1\<rparr>) cache)"
  using assms by (simp add: getEmbedding_def)

lemma getEmbedding_miss:
  assumes "case map_of cache (cacheKey model tx) of None \<Rightarrow> True
           | Some cached \<Rightarrow> \<not> now - created_at cached < TTL"
  shows "getEmbedding gen ev cache tx model now =
     (case gen tx model now of
        (Inl e, t) \<Rightarrow> ((Inl e, t), cache)
      | (Inr v, t) \<Rightarrow>
          (let cache1 = AList.update (cacheKey model tx)
                          \<lparr>embedding = v, created_at = t, hit_count = 0\<rparr> cache
           in ((Inr v, t), if length cache1 > 10000 then ev cache1 else cache1)))"
  using assms by (simp add: getEmbedding_def split: option.splits)

lemma length_update_le: "length (AList.update k v al) \<le> Suc (length al)"
  by (induction al) auto

text \<open>
  Claim C3, as amended. \<open>getEmbedding\<close>, taken alone, with room left in the cache: a call
  that misses returns what the generator returned and has stored it under the key of the
  model and the text. A later call for the same pair less than \<open>TTL\<close> after the entry was
  created returns that vector whatever the generator would do now, counting one hit; a call
  at or after \<open>TTL\<close> misses and returns what the generator returns then.
\<close>

theorem cache_round_trip:
  assumes "case map_of cache (cacheKey model tx) of None \<Rightarrow> True
           | Some cached \<Rightarrow> \<not> t0 - created_at cached < TTL"
    and "generateEmbedding tx model t0 = (Inr v, t1)"
    and "length cache < 10000"
    and "getEmbedding generateEmbedding evictLRU cache tx model t0 = (r1, cache1)"
  shows "r1 = (Inr v, t1)
     \<and> map_of cache1 (cacheKey model tx) = Some \<lparr>embedding = v, created_at = t1, hit_count = 0\<rparr>
     \<and> (now - t1 < TTL \<longrightarrow>
          getEmbedding generateEmbedding' evictLRU cache1 tx model now =
            ((Inr v, now),
             AList.update (cacheKey model tx)
               \<lparr>embedding = v, created_at = t1, hit_count = 1\<rparr> cache1))
     \<and> (\<not> now - t1 < TTL \<longrightarrow> generateEmbedding' tx model now = (Inr v', t') \<longrightarrow>
          fst (getEmbedding generateEmbedding' evictLRU cache1 tx model now) = (Inr v', t'))"
proof -
  let ?k = "cacheKey model tx"
  let ?e = "\<lparr>embedding = v, created_at = t1, hit_count = 0\<rparr>"
  have len: "\<not> length (AList.update ?k ?e cache) > 10000"
    using assms(3) length_update_le [of ?k ?e cache] by simp
  have first: "getEmbedding generateEmbedding evictLRU cache tx model t0 =
      ((Inr v, t1), AList.update ?k ?e cache)"
    using len by (simp add: getEmbedding_miss [OF assms(1)] assms(2) Let_def)
  with assms(4) have r1: "r1 = (Inr v, t1)" and c1: "cache1 = AList.update ?k ?e cache"
    by simp_all
  have stored: "map_of cache1 ?k = Some ?e"
    by (simp add: c1 update_conv')
  have hit: "now - t1 < TTL \<longrightarrow>
          getEmbedding generateEmbedding' evictLRU cache1 tx model now =
            ((Inr v, now),
             AList.update ?k \<lparr>embedding = v, created_at = t1, hit_count = 1\<rparr> cache1)"
    using getEmbedding_hit [OF stored, of now generateEmbedding' evictLRU] by simp
  have stale: "\<not> now - t1 < TTL \<longrightarrow> generateEmbedding' tx model now = (Inr v', t') \<longrightarrow>
          fst (getEmbedding generateEmbedding' evictLRU cache1 tx model now) = (Inr v', t')"
    using getEmbedding_miss [where cache = cache1 and gen = generateEmbedding' and ev = evictLRU
                           and now = "now" and model = "model" and tx = tx] stored
    by (simp add: Let_def)
  from r1 stored hit stale show ?thesis by blast
qed


theorem cache_round_trip_witness:
  "getEmbedding (\<lambda>tx m now. (Inr [1, 2::int], now + 5)) id [] ''hello'' ''nomic'' 0
     = ((Inr [1, 2], 5), [(''nomic:hello'', \<lparr>embedding = [1, 2], created_at = 5, hit_count = 0\<rparr>)])
   \<and> getEmbedding (\<lambda>tx m now. (Inr [7, 7], now + 5)) id
        [(''nomic:hello'', \<lparr>embedding = [1, 2::int], created_at = 5, hit_count = 0\<rparr>)]
        ''hello'' ''nomic'' 86400004
     = ((Inr [1, 2], 86400004),
        [(''nomic:hello'', \<lparr>embedding = [1, 2], created_at = 5, hit_count = 1\<rparr>)])
   \<and> fst (getEmbedding (\<lambda>tx m now. (Inr [7, 7], now + 5)) id
        [(''nomic:hello'', \<lparr>embedding = [1, 2::int], created_at = 5, hit_count = 0\<rparr>)]
        ''hello'' ''nomic'' 86400005)
     = (Inr [7, 7], 86400010)"
proof -
  let ?gen = "\<lambda>(tx::string) (m::string) (now::int). (Inr [1, 2::int] :: thrown + int list, now + 5)"
  let ?gen' = "\<lambda>(tx::string) (m::string) (now::int). (Inr [7, 7::int] :: thrown + int list, now + 5)"
  let ?c1 = "[(''nomic:hello'', \<lparr>embedding = [1, 2::int], created_at = 5, hit_count = 0\<rparr>)]"
  have first: "getEmbedding ?gen id [] ''hello'' ''nomic'' 0 = ((Inr [1, 2], 5), ?c1)"
    by (simp add: getEmbedding_def cacheKey_def)
  have h: "case map_of ([] :: int list embeddingCache) (cacheKey ''nomic'' ''hello'') of
             None \<Rightarrow> True | Some cached \<Rightarrow> \<not> 0 - created_at cached < TTL"
      "?gen ''hello'' ''nomic'' 0 = (Inr [1, 2], 5)"
      "length ([] :: int list embeddingCache) < 10000"
    by simp_all
  have "getEmbedding ?gen' id ?c1 ''hello'' ''nomic'' 86400004
     = ((Inr [1, 2], 86400004),
        [(''nomic:hello'', \<lparr>embedding = [1, 2], created_at = 5, hit_count = 1\<rparr>)])"
    using cache_round_trip [OF h first, where now = 86400004 and generateEmbedding' = ?gen']
    by (simp add: TTL_def cacheKey_def)
  moreover have "fst (getEmbedding ?gen' id ?c1 ''hello'' ''nomic'' 86400005) = (Inr [7, 7], 86400010)"
    using cache_round_trip [OF h first, where now = 86400005 and generateEmbedding' = ?gen'
                              and v' = "[7, 7]" and t' = 86400010]
    by (simp add: TTL_def)
  ultimately show ?thesis using first by simp
qed

lemma call_healthy:
  "call_tool healthy_env embed_call w
   = (ok_result (Stringified (Obj [(''model'', Str ''nomic-embed-text''),
                                   (''embedding'', Arr [Num 1, Num 2]), (''dimension'', Num 2)])),
      w @ [embed_request healthy_env (Str ''nomic-embed-text'') (Str ''hello'')])"
  by (simp add: call_tool_def run_tool_def embed_call_def generate_embedding_def
        bind_def lift_def axios_def healthy_env_def ret_def first_embedding_def)

text \<open>
  The tool server does not consult a cache: the same embedding request made twice reaches
  the service twice.
\<close>

theorem generate_embedding_has_no_cache:
  "snd (call_tool_times 2 healthy_env embed_call [])
   = [embed_request healthy_env (Str ''nomic-embed-text'') (Str ''hello''),
      embed_request healthy_env (Str ''nomic-embed-text'') (Str ''hello'')]"
  by (simp add: eval_nat_numeral call_healthy)

subsection \<open>Chunking\<close>


lemma join_paragraphs_empty:
  "[] \<notin> set g \<Longrightarrow> (join_paragraphs g = []) = (g = [])"
  by (induction g rule: join_paragraphs.induct) auto

lemma join_paragraphs_snoc:
  "join_paragraphs (g @ [p]) =
     (if g = [] then p else join_paragraphs g @ [CHR 0x0A, CHR 0x0A] @ p)"
  by (induction g rule: join_paragraphs.induct) auto

lemma chunk_loop_groups:
  assumes "[] \<notin> set ps" and "[] \<notin> set g"
  shows "(case chunk_loop est k ps chunks (join_paragraphs g) of
            (cs, cur) \<Rightarrow> if cur \<noteq> [] then cs @ [cur] else cs)
         = chunks @ map join_paragraphs (group_paragraphs est k g ps)"
  using assms
proof (induction ps arbitrary: chunks g)
  case Nil
  then show ?case by (simp add: join_paragraphs_empty)
next
  case (Cons p ps)
  from Cons.prems have p: "p \<noteq> []" and ps: "[] \<notin> set ps" by auto
  show ?case
  proof (cases "g \<noteq> [] \<and> est (join_paragraphs g) + est p > k")
    case True
    have "[] \<notin> set [p]" using p by simp
    from Cons.IH [OF ps this, of "chunks @ [join_paragraphs g]"] True Cons.prems(2)
    show ?thesis by (simp add: join_paragraphs_empty)
  next
    case False
    have g': "[] \<notin> set (g @ [p])" using p Cons.prems(2) by simp
    have step: "chunk_loop est k (p # ps) chunks (join_paragraphs g)
               = chunk_loop est k ps chunks (join_paragraphs (g @ [p]))"
      using False Cons.prems(2)
      by (cases "g = []") (simp_all add: join_paragraphs_snoc join_paragraphs_empty Let_def)
    have "group_paragraphs est k g (p # ps) = group_paragraphs est k (g @ [p]) ps"
      using False by auto
    with Cons.IH [OF ps g', of chunks] step show ?thesis by simp
  qed
qed

lemma concat_group_paragraphs:
  "concat (group_paragraphs est k g ps) = g @ ps"
  by (induction ps arbitrary: g) auto

lemma group_paragraphs_nonempty:
  "[] \<notin> set (group_paragraphs est k g ps)"
  by (induction ps arbitrary: g) auto

lemma length_group_paragraphs:
  "length (group_paragraphs est k g ps) \<le> (if g = [] then 0 else 1) + length ps"
proof (induction ps arbitrary: g)
  case Nil
  then show ?case by simp
next
  case (Cons p ps)
  show ?case
    using Cons.IH [of "[p]"] Cons.IH [of "g @ [p]"] by (auto split: if_splits)
qed

text \<open>
  Claim C6, as amended. For a document without an empty paragraph, \<open>smartChunk\<close> gathers whole
  paragraphs into a chunk until the next paragraph would take the chunk over the budget, then
  closes the chunk and opens the next one with that paragraph alone: the chunks are the
  paragraphs of the document, in order and each exactly once, joined by blank lines within a
  chunk. Nothing of a chunk is repeated in the next, no paragraph is split, and there are
  never more chunks than paragraphs.
\<close>

theorem smartChunk_groups_whole_paragraphs:
  assumes "[] \<notin> set (split_paragraphs doc)"
  shows "smartChunk est doc k
           = map join_paragraphs (group_paragraphs est k [] (split_paragraphs doc))
     \<and> concat (group_paragraphs est k [] (split_paragraphs doc)) = split_paragraphs doc
     \<and> [] \<notin> set (group_paragraphs est k [] (split_paragraphs doc))
     \<and> length (smartChunk est doc k) \<le> length (split_paragraphs doc)"
proof -
  have eq: "smartChunk est doc k
           = map join_paragraphs (group_paragraphs est k [] (split_paragraphs doc))"
    using chunk_loop_groups [OF assms, of "[]" est k "[]"]
    by (simp add: smartChunk_def)
  have len: "length (smartChunk est doc k) \<le> length (split_paragraphs doc)"
    using length_group_paragraphs [of est k "[]" "split_paragraphs doc"] by (simp add: eq)
  from eq len show ?thesis
    by (simp add: concat_group_paragraphs group_paragraphs_nonempty)
qed

lemma split_paragraphs_from_run:
  "c \<noteq> CHR 0x0A \<Longrightarrow>
   split_paragraphs_from cur (replicate n c @ rest) = split_paragraphs_from (cur @ replicate n c) rest"
proof (induction n arbitrary: cur)
  case 0
  then show ?case by simp
next
  case (Suc n)
  then show ?case by (simp add: replicate_app_Cons_same)
qed

lemma split_two_paragraphs:
  "a \<noteq> CHR 0x0A \<Longrightarrow> b \<noteq> CHR 0x0A \<Longrightarrow> 0 < m \<Longrightarrow>
   split_paragraphs (replicate n a @ CHR 0x0A # CHR 0x0A # replicate m b)
     = [replicate n a, replicate m b]"
  using split_paragraphs_from_run [of b "[]" m "[]"]
  by (cases m) (simp_all add: split_paragraphs_def split_paragraphs_from_run)

text \<open>
  A document of two paragraphs of 599 tokens each, 1,200 tokens with the blank line between
  them when every character counts as a token, gives with budget 500 the two paragraphs as
  two chunks: not three chunks, each above 550 tokens, and the second does not begin with
  the end of the first.
\<close>

theorem smartChunk_two_large_paragraphs:
  "smartChunk length (replicate 599 CHR ''a'' @ [CHR 0x0A, CHR 0x0A] @ replicate 599 CHR ''b'') 500
     = [replicate 599 CHR ''a'', replicate 599 CHR ''b'']"
  by (simp add: smartChunk_def split_two_paragraphs)

theorem smartChunk_groups_whole_paragraphs_witness:
  "split_paragraphs [CHR ''a'', CHR ''a'', CHR 0x0A, CHR 0x0A, CHR ''b'', CHR ''b'', CHR ''b'',
                     CHR 0x0A, CHR 0x0A, CHR 0x0A, CHR ''c'']
     = [''aa'', ''bbb'', ''c'']
   \<and> smartChunk length [CHR ''a'', CHR ''a'', CHR 0x0A, CHR 0x0A, CHR ''b'', CHR ''b'', CHR ''b'',
                          CHR 0x0A, CHR 0x0A, CHR 0x0A, CHR ''c''] 4
     = [''aa'', [CHR ''b'', CHR ''b'', CHR ''b'', CHR 0x0A, CHR 0x0A, CHR ''c'']]"
proof -
  let ?doc = "[CHR ''a'', CHR ''a'', CHR 0x0A, CHR 0x0A, CHR ''b'', CHR ''b'', CHR ''b'',
               CHR 0x0A, CHR 0x0A, CHR 0x0A, CHR ''c'']"
  have ps: "split_paragraphs ?doc = [''aa'', ''bbb'', ''c'']"
    by (simp add: split_paragraphs_def)
  then have h: "[] \<notin> set (split_paragraphs ?doc)" by simp
  from smartChunk_groups_whole_paragraphs [OF h, of length 4]
  have "smartChunk length ?doc 4
     = [''aa'', [CHR ''b'', CHR ''b'', CHR ''b'', CHR 0x0A, CHR 0x0A, CHR ''c'']]"
    by (simp add: ps)
  with ps show ?thesis by blast
qed

subsection \<open>Similarity query\<close>


lemma filter_same_key_distinct:
  "distinct (map f xs) \<Longrightarrow> k \<in> set xs \<Longrightarrow> filter (\<lambda>x. f k = f x) xs = [k]"
proof (induction xs)
  case Nil
  then show ?case by simp
next
  case (Cons x xs)
  show ?case
  proof (cases "k = x")
    case True
    with Cons.prems have "\<forall>y\<in>set xs. f x \<noteq> f y" by auto
    then have "filter (\<lambda>y. f x = f y) xs = []" by (simp add: filter_empty_conv)
    with True show ?thesis by simp
  next
    case False
    with Cons.prems have kx: "k \<in> set xs" and d: "distinct (map f xs)" by simp_all
    from Cons.prems(1) have "f x \<notin> f ` set xs" by simp
    with kx have "f k \<noteq> f x" by (metis imageI)
    with Cons.IH [OF d kx] show ?thesis by simp
  qed
qed

text \<open>A sorted list with distinct keys is the only sorted arrangement of its elements.\<close>

lemma sorted_distinct_unique:
  fixes f :: "'a \<Rightarrow> 'k::linorder"
  assumes "mset ys = mset xs" and "sorted (map f ys)" and "distinct (map f xs)"
  shows "sort_key f xs = ys"
proof (rule properties_for_sort_key [OF assms(1) _ assms(2)])
  fix k assume k: "k \<in> set ys"
  have dy: "distinct (map f ys)"
  proof -
    have "mset (map f ys) = mset (map f xs)" using assms(1) by simp
    then show ?thesis using assms(3) mset_eq_imp_distinct_iff by blast
  qed
  from k have kx: "k \<in> set xs" using assms(1) mset_eq_setD by blast
  have "filter (\<lambda>x. f k = f x) ys = [k]" using dy k by (rule filter_same_key_distinct)
  moreover have "filter (\<lambda>x. f k = f x) xs = [k]" using assms(3) kx by (rule filter_same_key_distinct)
  ultimately show "filter (\<lambda>x. f k = f x) ys = filter (\<lambda>x. f k = f x) xs" by simp
qed

lemma sorted_keys_unique:
  fixes f :: "'a \<Rightarrow> 'k::linorder"
  assumes "mset ys = mset xs" and "sorted (map f ys)"
  shows "map f ys = sort (map f xs)"
proof -
  have "mset (map f ys) = mset (map f xs)" using assms(1) by simp
  from properties_for_sort [OF this assms(2)] show ?thesis by simp
qed

lemma candidates_mset:
  assumes "mset rows' = mset rows"
  shows "mset (search_candidates rows' q conv) = mset (search_candidates rows q conv)"
proof -
  let ?P = "\<lambda>m. conversation_id m = conv \<and> \<not> is_archived m"
  have "mset (filter ?P rows') = mset (filter ?P rows)" using assms by (metis mset_filter)
  then show ?thesis unfolding search_candidates_def by (metis mset_map)
qed

lemma dimensions_agree_mset:
  assumes "mset rows' = mset rows"
  shows "dimensions_agree rows' q conv = dimensions_agree rows q conv"
proof -
  have "set rows' = set rows" using assms by (rule mset_eq_setD)
  then show ?thesis by (simp add: dimensions_agree_def)
qed

text \<open>A result the query may give is the head of a sorted arrangement of all candidates.\<close>

lemma result_is_head_of_sorted:
  assumes "semantic_search rows q conv top_k (Inr res)"
  shows "\<exists>rest. mset (res @ rest) = mset (search_candidates rows q conv)
           \<and> sorted (map snd (res @ rest)) \<and> take top_k (res @ rest) = res"
proof -
  let ?cand = "search_candidates rows q conv"
  from assms have len: "length res = min top_k (length ?cand)"
    and srt: "sorted (map snd res)"
    and sub: "mset res \<subseteq># mset ?cand"
    and far: "\<forall>x\<in>set res. \<forall>y\<in>#mset ?cand - mset res. snd x \<le> snd y"
    by (simp_all add: semantic_search_def)
  obtain ys where ys: "mset ys = mset ?cand - mset res" using ex_mset by blast
  let ?rest = "sort_key snd ys"
  have m: "mset (res @ ?rest) = mset ?cand"
    using sub ys by (simp add: subset_mset.add_diff_inverse)
  have "set ?rest = set_mset (mset ?cand - mset res)" using ys by (metis set_mset_mset set_sort)
  with far have "\<forall>x\<in>set res. \<forall>y\<in>set ?rest. snd x \<le> snd y" by simp
  with srt have s: "sorted (map snd (res @ ?rest))"
    by (simp add: sorted_append)
  have t: "take top_k (res @ ?rest) = res"
  proof (cases "top_k \<le> length ?cand")
    case True
    with len show ?thesis by simp
  next
    case False
    with len have "length res = length ?cand" by simp
    moreover have "length (res @ ?rest) = length ?cand" using m by (metis size_mset)
    ultimately have "?rest = []" by simp
    with False len show ?thesis by simp
  qed
  from m s t show ?thesis by blast
qed

lemma result_distances:
  assumes "semantic_search rows q conv top_k (Inr res)"
  shows "map snd res = take top_k (sort (map snd (search_candidates rows q conv)))"
proof -
  from result_is_head_of_sorted [OF assms] obtain rest where
    m: "mset (res @ rest) = mset (search_candidates rows q conv)"
    and s: "sorted (map snd (res @ rest))" and t: "take top_k (res @ rest) = res"
    by blast
  have "map snd (res @ rest) = sort (map snd (search_candidates rows q conv))"
    using m s by (rule sorted_keys_unique)
  then have "take top_k (map snd (res @ rest)) = take top_k (sort (map snd (search_candidates rows q conv)))"
    by simp
  then show ?thesis using t by (metis take_map)
qed

lemma result_rows_when_distinct:
  assumes "semantic_search rows q conv top_k (Inr res)"
    and "distinct (map snd (search_candidates rows q conv))"
  shows "res = take top_k (sort_key snd (search_candidates rows q conv))"
proof -
  from result_is_head_of_sorted [OF assms(1)] obtain rest where
    m: "mset (res @ rest) = mset (search_candidates rows q conv)"
    and s: "sorted (map snd (res @ rest))" and t: "take top_k (res @ rest) = res"
    by blast
  have "sort_key snd (search_candidates rows q conv) = res @ rest"
    using m s assms(2) by (rule sorted_distinct_unique)
  with t show ?thesis by simp
qed

text \<open>Reading the table in list order and sorting stably gives an outcome the query allows.\<close>

lemma scan_and_sort_allowed:
  "semantic_search rows q conv top_k (scan_and_sort rows q conv top_k)"
proof (cases "dimensions_agree rows q conv")
  case False
  then show ?thesis by (simp add: scan_and_sort_def semantic_search_def)
next
  case True
  let ?cand = "search_candidates rows q conv"
  let ?s = "sort_key snd ?cand"
  have split: "mset ?cand = mset (take top_k ?s) + mset (drop top_k ?s)"
    by (metis append_take_drop_id mset_append mset_sort)
  have sub: "mset (take top_k ?s) \<subseteq># mset ?cand"
    unfolding split by (rule mset_subset_eq_add_left)
  have diff: "mset ?cand - mset (take top_k ?s) = mset (drop top_k ?s)"
    unfolding split by simp
  have "sorted (map snd (take top_k ?s @ drop top_k ?s))" by simp
  then have far: "\<forall>x\<in>set (take top_k ?s). \<forall>y\<in>set (drop top_k ?s). snd x \<le> snd y"
    unfolding map_append sorted_append by auto
  have srt: "sorted (map snd (take top_k ?s))"
    by (simp add: take_map [symmetric])
  from True sub srt far show ?thesis
    by (simp add: scan_and_sort_def semantic_search_def diff)
qed


text \<open>
  Claim C4, as amended. Whatever result the semantic search gives, it holds at most \<open>top_k\<close>
  rows, as many as the limit and the conversation allow; they are rows of the conversation
  that are not archived, each with its distance to the query vector, in ascending order of
  that distance, and no row of the conversation left out is nearer than a row returned. The
  query has an outcome for every table. Under any reordering of the stored rows every
  outcome is again a result with the same sequence of distances, and with the same rows when
  the rows of the conversation lie at pairwise different distances from the query.
\<close>

theorem semantic_search_ordered:
  assumes "semantic_search rows q conv top_k (Inr res)"
  shows "length res \<le> top_k
     \<and> length res = min top_k (length (filter (\<lambda>m. conversation_id m = conv \<and> \<not> is_archived m) rows))
     \<and> sorted (map snd res)
     \<and> (\<forall>x\<in>set res. fst x \<in> set rows \<and> conversation_id (fst x) = conv \<and> \<not> is_archived (fst x)
            \<and> snd x = l2_distance (mem_embedding (fst x)) q)
     \<and> (\<forall>m\<in>set rows. conversation_id m = conv \<and> \<not> is_archived m
            \<and> (m, l2_distance (mem_embedding m) q) \<notin> set res
            \<longrightarrow> (\<forall>x\<in>set res. snd x \<le> l2_distance (mem_embedding m) q))
     \<and> semantic_search rows' q conv top_k (scan_and_sort rows' q conv top_k)
     \<and> (mset rows' = mset rows \<longrightarrow> semantic_search rows' q conv top_k out' \<longrightarrow>
          (\<exists>res'. out' = Inr res' \<and> map snd res' = map snd res
             \<and> (distinct (map (\<lambda>m. l2_distance (mem_embedding m) q)
                            (filter (\<lambda>m. conversation_id m = conv \<and> \<not> is_archived m) rows))
                  \<longrightarrow> res' = res)))"
proof -
  let ?P = "\<lambda>m. conversation_id m = conv \<and> \<not> is_archived m"
  let ?cand = "search_candidates rows q conv"
  from assms have agree: "dimensions_agree rows q conv"
    and len: "length res = min top_k (length ?cand)"
    and srt: "sorted (map snd res)"
    and sub: "mset res \<subseteq># mset ?cand"
    and far: "\<forall>x\<in>set res. \<forall>y\<in>#mset ?cand - mset res. snd x \<le> snd y"
    by (simp_all add: semantic_search_def)
  have c1: "length res \<le> top_k" using len by simp
  have c2: "length res = min top_k (length (filter ?P rows))"
    using len by (simp add: search_candidates_def)
  have "set res \<subseteq> set ?cand" using sub by (metis set_mset_mono set_mset_mset)
  then have c4: "\<forall>x\<in>set res. fst x \<in> set rows \<and> conversation_id (fst x) = conv
            \<and> \<not> is_archived (fst x) \<and> snd x = l2_distance (mem_embedding (fst x)) q"
    by (auto simp: search_candidates_def)
  have c5: "\<forall>m\<in>set rows. ?P m \<and> (m, l2_distance (mem_embedding m) q) \<notin> set res
            \<longrightarrow> (\<forall>x\<in>set res. snd x \<le> l2_distance (mem_embedding m) q)"
  proof (intro ballI impI)
    fix m x
    assume m: "m \<in> set rows" and h: "?P m \<and> (m, l2_distance (mem_embedding m) q) \<notin> set res"
      and x: "x \<in> set res"
    let ?y = "(m, l2_distance (mem_embedding m) q)"
    have "?y \<in> set ?cand" using m h by (auto simp: search_candidates_def)
    then have a: "count (mset ?cand) ?y > 0" by (simp add: count_greater_zero_iff)
    have b: "count (mset res) ?y = 0" using h by (simp add: count_mset_0_iff)
    have "?y \<in># mset ?cand - mset res"
      unfolding in_diff_count using a b by linarith
    with far x show "snd x \<le> l2_distance (mem_embedding m) q" by fastforce
  qed
  have c6: "semantic_search rows' q conv top_k (scan_and_sort rows' q conv top_k)"
    by (rule scan_and_sort_allowed)
  have c7: "\<exists>res'. out' = Inr res' \<and> map snd res' = map snd res
             \<and> (distinct (map (\<lambda>m. l2_distance (mem_embedding m) q) (filter ?P rows)) \<longrightarrow> res' = res)"
    if p: "mset rows' = mset rows" and o: "semantic_search rows' q conv top_k out'"
  proof -
    let ?cand' = "search_candidates rows' q conv"
    have cm: "mset ?cand' = mset ?cand" using p by (rule candidates_mset)
    have "dimensions_agree rows' q conv" using agree dimensions_agree_mset [OF p] by simp
    with o obtain res' where out': "out' = Inr res'"
      by (cases out') (simp_all add: semantic_search_def)
    with o have r': "semantic_search rows' q conv top_k (Inr res')" by simp
    have "mset (map snd ?cand') = mset (map snd ?cand)" using cm by simp
    then have "sort (map snd ?cand') = sort (map snd ?cand)"
      by (intro properties_for_sort) simp_all
    then have d: "map snd res' = map snd res"
      using result_distances [OF r'] result_distances [OF assms] by simp
    have e: "res' = res"
      if "distinct (map (\<lambda>m. l2_distance (mem_embedding m) q) (filter ?P rows))"
    proof -
      have dc: "distinct (map snd ?cand)"
        using that by (simp add: search_candidates_def comp_def)
      then have dc': "distinct (map snd ?cand')"
        using cm by (metis mset_eq_imp_distinct_iff mset_map)
      have "sorted (map snd (sort_key snd ?cand'))" by simp
      moreover have "mset (sort_key snd ?cand') = mset ?cand" using cm by simp
      ultimately have "sort_key snd ?cand = sort_key snd ?cand'"
        using dc by (intro sorted_distinct_unique)
      then show ?thesis
        using result_rows_when_distinct [OF r' dc'] result_rows_when_distinct [OF assms dc]
        by simp
    qed
    from out' d e show ?thesis by blast
  qed
  from c1 c2 srt c4 c5 c6 c7 show ?thesis by blast
qed

lemma sqrt_16: "sqrt 16 = 4"
  by (rule real_sqrt_unique) simp_all

lemma sqrt_2_and_3: "sqrt 2 \<le> 3" "\<not> 3 \<le> sqrt 2" "sqrt 2 \<noteq> 3"
proof -
  have "sqrt 2 < 3" by (rule real_less_lsqrt) simp_all
  then show "sqrt 2 \<le> 3" "\<not> 3 \<le> sqrt 2" "sqrt 2 \<noteq> 3" by simp_all
qed

theorem semantic_search_ordered_witness:
  "semantic_search
     [example_memory 1 ''c1'' ''x'' [4, 0], example_memory 2 ''c1'' ''y'' [0, 1],
      example_memory 3 ''c2'' ''z'' [1, 0],
      (example_memory 4 ''c1'' ''w'' [1, 0])\<lparr>is_archived := True\<rparr>] [1, 0] ''c1'' 1
     (Inr [(example_memory 2 ''c1'' ''y'' [0, 1], sqrt 2)])
   \<and> scan_and_sort
     (rev [example_memory 1 ''c1'' ''x'' [4, 0], example_memory 2 ''c1'' ''y'' [0, 1],
           example_memory 3 ''c2'' ''z'' [1, 0],
           (example_memory 4 ''c1'' ''w'' [1, 0])\<lparr>is_archived := True\<rparr>]) [1, 0] ''c1'' 1
     = Inr [(example_memory 2 ''c1'' ''y'' [0, 1], sqrt 2)]"
proof -
  let ?rows = "[example_memory 1 ''c1'' ''x'' [4, 0], example_memory 2 ''c1'' ''y'' [0, 1],
                example_memory 3 ''c2'' ''z'' [1, 0],
                (example_memory 4 ''c1'' ''w'' [1, 0])\<lparr>is_archived := True\<rparr>]"
  let ?res = "[(example_memory 2 ''c1'' ''y'' [0, 1], sqrt 2)]"
  let ?out = "scan_and_sort (rev ?rows) [1, 0] ''c1'' 1"
  have r: "semantic_search ?rows [1, 0] ''c1'' 1 (Inr ?res)"
    by (simp add: semantic_search_def search_candidates_def dimensions_agree_def l2_distance_def
          example_memory_def sqrt_2_and_3)
  have p: "mset (rev ?rows) = mset ?rows" by simp
  have d: "distinct (map (\<lambda>m. l2_distance (mem_embedding m) [1, 0])
             (filter (\<lambda>m. conversation_id m = ''c1'' \<and> \<not> is_archived m) ?rows))"
    by (simp add: l2_distance_def example_memory_def sqrt_2_and_3)
  note t = semantic_search_ordered [OF r, of "rev ?rows" ?out]
  from t have "semantic_search (rev ?rows) [1, 0] ''c1'' 1 ?out" by blast
  with t p d have "?out = Inr ?res" by blast
  with r show ?thesis by blast
qed

text \<open>
  The order of the results is that of the Euclidean distance, not of the cosine distance:
  for the query vector \<open>(1, 0)\<close> the row \<open>(0, 1)\<close>, at cosine distance 1, comes before the row
  \<open>(4, 0)\<close>, at cosine distance 0, and the opposite order is no result of the query. And the
  rows returned depend on more than the set of stored rows: of two rows at the same distance,
  asked for one, either may come back, the first for a table and the second for its reverse.
\<close>

theorem semantic_search_euclidean_and_ties:
  "semantic_search
     [example_memory 1 ''c1'' ''x'' [4, 0], example_memory 2 ''c1'' ''y'' [0, 1]] [1, 0] ''c1'' 2
     (Inr [(example_memory 2 ''c1'' ''y'' [0, 1], sqrt 2), (example_memory 1 ''c1'' ''x'' [4, 0], 3)])
   \<and> \<not> semantic_search
     [example_memory 1 ''c1'' ''x'' [4, 0], example_memory 2 ''c1'' ''y'' [0, 1]] [1, 0] ''c1'' 2
     (Inr [(example_memory 1 ''c1'' ''x'' [4, 0], 3), (example_memory 2 ''c1'' ''y'' [0, 1], sqrt 2)])
   \<and> cosine_distance [4, 0] [1, 0] = 0
   \<and> cosine_distance [0, 1] [1, 0] = 1
   \<and> semantic_search
     [example_memory 1 ''c1'' ''x'' [3, 0], example_memory 2 ''c1'' ''y'' [3, 0]] [0, 0] ''c1'' 1
     (Inr [(example_memory 1 ''c1'' ''x'' [3, 0], 3)])
   \<and> semantic_search
     (rev [example_memory 1 ''c1'' ''x'' [3, 0], example_memory 2 ''c1'' ''y'' [3, 0]]) [0, 0] ''c1'' 1
     (Inr [(example_memory 2 ''c1'' ''y'' [3, 0], 3)])
   \<and> example_memory 1 ''c1'' ''x'' [3, 0] \<noteq> example_memory 2 ''c1'' ''y'' [3, 0]"
proof -
  have a: "semantic_search
     [example_memory 1 ''c1'' ''x'' [4, 0], example_memory 2 ''c1'' ''y'' [0, 1]] [1, 0] ''c1'' 2
     (Inr [(example_memory 2 ''c1'' ''y'' [0, 1], sqrt 2), (example_memory 1 ''c1'' ''x'' [4, 0], 3)])"
    by (simp add: semantic_search_def search_candidates_def dimensions_agree_def l2_distance_def
          example_memory_def sqrt_2_and_3)
  have b: "\<not> semantic_search
     [example_memory 1 ''c1'' ''x'' [4, 0], example_memory 2 ''c1'' ''y'' [0, 1]] [1, 0] ''c1'' 2
     (Inr [(example_memory 1 ''c1'' ''x'' [4, 0], 3), (example_memory 2 ''c1'' ''y'' [0, 1], sqrt 2)])"
    by (simp add: semantic_search_def search_candidates_def dimensions_agree_def l2_distance_def
          example_memory_def sqrt_2_and_3)
  have c: "cosine_distance [4, 0] [1, 0] = 0" "cosine_distance [0, 1] [1, 0] = 1"
    by (simp_all add: cosine_distance_def sqrt_16)
  have d: "semantic_search
     [example_memory 1 ''c1'' ''x'' [3, 0], example_memory 2 ''c1'' ''y'' [3, 0]] [0, 0] ''c1'' 1
     (Inr [(example_memory 1 ''c1'' ''x'' [3, 0], 3)])"
    by (simp add: semantic_search_def search_candidates_def dimensions_agree_def l2_distance_def
          example_memory_def)
  have e: "semantic_search
     (rev [example_memory 1 ''c1'' ''x'' [3, 0], example_memory 2 ''c1'' ''y'' [3, 0]]) [0, 0] ''c1'' 1
     (Inr [(example_memory 2 ''c1'' ''y'' [3, 0], 3)])"
    by (simp add: semantic_search_def search_candidates_def dimensions_agree_def l2_distance_def
          example_memory_def)
  have f: "example_memory 1 ''c1'' ''x'' [3, 0] \<noteq> example_memory 2 ''c1'' ''y'' [3, 0]"
    by (simp add: example_memory_def)
  from a b c d e f show ?thesis by blast
qed

subsection \<open>Storing a memory with the duplicate check\<close>














end
